theory Spec2Isabelle
  imports Complex_Main
begin

section \<open>Strings\<close>

text \<open>
  JavaScript strings are sequences of UTF-16 code units; here a \<^typ>\<open>string\<close> holds one
  \<^typ>\<open>char\<close> per code unit. Template literals are concatenations.  A number inside a
  template literal is rendered by \<open>show_nat\<close>: plain decimal digits, which is what
  JavaScript prints for a non-negative integer below \<open>10^21\<close>.
\<close>

definition digit_char :: "nat \<Rightarrow> char" where
  "digit_char d = char_of (48 + d)"

fun show_nat :: "nat \<Rightarrow> string" where
  "show_nat n = (if n < 10 then [digit_char n] else show_nat (n div 10) @ [digit_char (n mod 10)])"

declare show_nat.simps [simp del]

text \<open>\<open>s.startsWith(p)\<close> and \<open>s.includes(p)\<close>.\<close>

fun starts_with :: "string \<Rightarrow> string \<Rightarrow> bool" where
  "starts_with s [] = True"
| "starts_with [] (p # ps) = False"
| "starts_with (c # cs) (p # ps) = (c = p \<and> starts_with cs ps)"

fun includes_str :: "string \<Rightarrow> string \<Rightarrow> bool" where
  "includes_str [] p = (p = [])"
| "includes_str (c # cs) p = (starts_with (c # cs) p \<or> includes_str cs p)"

text \<open>
  A regular expression \<open>/word/i\<close> whose pattern is made of ASCII letters, digits and
  spaces only: \<open>pattern.test(s)\<close> holds when \<open>s\<close> contains the pattern, letters compared
  without case.  Only \<open>A\<close>..\<open>Z\<close> are folded: a code unit outside ASCII never matches an
  ASCII pattern character under the \<open>i\<close> flag.
\<close>

definition lower_char :: "char \<Rightarrow> char" where
  "lower_char c = (let n = (of_char c :: nat) in if 65 \<le> n \<and> n \<le> 90 then char_of (n + 32) else c)"

definition regex_test_i :: "string \<Rightarrow> string \<Rightarrow> bool" where
  "regex_test_i pattern s = includes_str (map lower_char s) (map lower_char pattern)"

section \<open>Retry utilities (utils/retry.ts)\<close>

subsection \<open>Configuration and errors\<close>

text \<open>
  \<open>RetryConfig\<close>: \<open>maxAttempts\<close> is a count (the schema asks for a number in \<open>[1,10]\<close>, the
  data model for a positive integer); the delays and the factor are JavaScript numbers,
  modelled as real numbers, so the arithmetic below is exact where IEEE doubles round.
\<close>

record RetryConfig =
  maxAttempts :: nat
  baseDelay :: real
  maxDelay :: real
  backoffFactor :: real

definition DEFAULT_RETRY_CONFIG :: RetryConfig where
  "DEFAULT_RETRY_CONFIG = \<lparr>maxAttempts = 3, baseDelay = 1000, maxDelay = 30000, backoffFactor = 2\<rparr>"

definition API_RETRY_CONFIG :: RetryConfig where
  "API_RETRY_CONFIG = \<lparr>maxAttempts = 3, baseDelay = 2000, maxDelay = 10000, backoffFactor = 3 / 2\<rparr>"

definition DB_RETRY_CONFIG :: RetryConfig where
  "DB_RETRY_CONFIG = \<lparr>maxAttempts = 5, baseDelay = 500, maxDelay = 5000, backoffFactor = 2\<rparr>"


text \<open>
  An \<open>Error\<close> object has a name and a message.  Anything can be thrown in JavaScript: a
  thrown value is either an \<open>Error\<close> object or some other value, kept as its \<open>String(value)\<close>
  rendering.  \<open>as_error\<close> is the expression
  \<^verbatim>\<open>error instanceof Error ? error : new Error(String(error))\<close>.
\<close>

datatype js_error = JsError (name: string) (message: string)

datatype thrown = ErrorValue js_error | OtherValue string

fun as_error :: "thrown \<Rightarrow> js_error" where
  "as_error (ErrorValue e) = e"
| "as_error (OtherValue s) = JsError ''Error'' s"

text \<open>
  The operation is an effectful thunk: \<open>operation i\<close> is what its invocation number \<open>i\<close>
  (counted from 0) does, resolve with a value or reject with a thrown value.
\<close>

datatype 'a outcome = Resolves 'a | Rejects thrown

text \<open>
  What a retry run leaves behind: how often the operation was invoked, how many random
  numbers were drawn, the delays slept (in order) and the warnings printed.
\<close>

record retry_state =
  calls :: nat
  draws :: nat
  slept :: "int list"
  warned :: "string list"

definition initial_state :: retry_state where
  "initial_state = \<lparr>calls = 0, draws = 0, slept = [], warned = []\<rparr>"

subsection \<open>calculateDelay\<close>

text \<open>
  \<open>random\<close> is the value \<open>Math.random()\<close> returns, a number in \<open>[0,1)\<close>.  \<open>Math.pow\<close> with
  an integer exponent is \<open>powi\<close>; \<open>Math.round\<close> rounds halves up, as \<^const>\<open>round\<close> does.
\<close>

definition calculateDelay :: "nat \<Rightarrow> RetryConfig \<Rightarrow> real \<Rightarrow> int" where
  "calculateDelay attempt config random =
     (let exponentialDelay =
            min (baseDelay config * (backoffFactor config powi (int attempt - 1))) (maxDelay config);
          jitter = exponentialDelay * (25 / 100) * (random * 2 - 1)
      in max 0 (round (exponentialDelay + jitter)))"

subsection \<open>withRetry\<close>

definition retry_warning :: "string \<Rightarrow> nat \<Rightarrow> RetryConfig \<Rightarrow> int \<Rightarrow> js_error \<Rightarrow> string" where
  "retry_warning context attempt config delay lastError =
     context @ '' failed on attempt '' @ show_nat attempt @ ''/'' @ show_nat (maxAttempts config)
       @ ''. '' @ ''Retrying in '' @ show_nat (nat delay) @ ''ms. Error: '' @ message lastError"

text \<open>
  The \<open>throw\<close> after the loop.  \<open>lastError\<close> is unassigned when the loop body never ran;
  reading \<open>.message\<close> of \<open>undefined\<close> is then a \<open>TypeError\<close>.
\<close>

definition withRetry_throw :: "RetryConfig \<Rightarrow> string \<Rightarrow> js_error option \<Rightarrow> thrown" where
  "withRetry_throw config context lastError =
     (case lastError of
        None \<Rightarrow>
          ErrorValue (JsError ''TypeError''
            (''Cannot read properties of undefined (reading '' @ [CHR 0x27] @ ''message''
               @ [CHR 0x27] @ '')''))
      | Some e \<Rightarrow>
          ErrorValue (JsError ''Error''
            (context @ '' failed after '' @ show_nat (maxAttempts config) @ '' attempts. ''
               @ ''Last error: '' @ message e)))"

function withRetry_loop ::
  "(nat \<Rightarrow> 'a outcome) \<Rightarrow> RetryConfig \<Rightarrow> string \<Rightarrow> (nat \<Rightarrow> real) \<Rightarrow> nat \<Rightarrow> js_error option
     \<Rightarrow> retry_state \<Rightarrow> (thrown + 'a) \<times> retry_state" where
  "withRetry_loop operation config context random attempt lastError s =
     (if attempt \<le> maxAttempts config then
        (case operation (calls s) of
           Resolves v \<Rightarrow> (Inr v, s\<lparr>calls := calls s + 1\<rparr>)
         | Rejects x \<Rightarrow>
             (if attempt = maxAttempts config
              then (Inl (withRetry_throw config context (Some (as_error x))),
                    s\<lparr>calls := calls s + 1\<rparr>)
              else withRetry_loop operation config context random (attempt + 1)
                     (Some (as_error x))
                     (s\<lparr>calls := calls s + 1,
                        draws := draws s + 1,
                        slept := slept s @ [calculateDelay attempt config (random (draws s))],
                        warned := warned s @
                          [retry_warning context attempt config
                             (calculateDelay attempt config (random (draws s))) (as_error x)]\<rparr>)))
      else (Inl (withRetry_throw config context lastError), s))"
  by pat_completeness auto
termination
  by (relation "measure (\<lambda>(operation, config, context, random, attempt, lastError, s).
        maxAttempts config + 1 - attempt)") auto

declare withRetry_loop.simps [simp del]

definition withRetry ::
  "(nat \<Rightarrow> 'a outcome) \<Rightarrow> RetryConfig \<Rightarrow> string \<Rightarrow> (nat \<Rightarrow> real) \<Rightarrow> (thrown + 'a) \<times> retry_state" where
  "withRetry operation config context random =
     withRetry_loop operation config context random 1 None initial_state"

subsection \<open>isRetryableError and withConditionalRetry\<close>

definition retryablePatterns :: "string list" where
  "retryablePatterns =
     [''network'', ''timeout'', ''rate limit'', ''503'', ''502'', ''504'', ''connection'', ''temporary'']"

definition isRetryableError :: "js_error \<Rightarrow> bool" where
  "isRetryableError error =
     list_ex (\<lambda>pattern. regex_test_i pattern (message error) \<or> regex_test_i pattern (name error))
       retryablePatterns"

text \<open>\<open>throw lastError!\<close>: the last error itself, or \<open>undefined\<close> when the loop never ran.\<close>

definition withConditionalRetry_throw :: "js_error option \<Rightarrow> thrown" where
  "withConditionalRetry_throw lastError =
     (case lastError of None \<Rightarrow> OtherValue ''undefined'' | Some e \<Rightarrow> ErrorValue e)"

definition conditional_warning :: "string \<Rightarrow> nat \<Rightarrow> RetryConfig \<Rightarrow> int \<Rightarrow> js_error \<Rightarrow> string" where
  "conditional_warning context attempt config delay lastError =
     context @ '' failed on attempt '' @ show_nat attempt @ ''/'' @ show_nat (maxAttempts config)
       @ '' '' @ ''with retryable error. Retrying in '' @ show_nat (nat delay) @ ''ms. Error: ''
       @ message lastError"

function withConditionalRetry_loop ::
  "(nat \<Rightarrow> 'a outcome) \<Rightarrow> RetryConfig \<Rightarrow> string \<Rightarrow> (nat \<Rightarrow> real) \<Rightarrow> nat \<Rightarrow> js_error option
     \<Rightarrow> retry_state \<Rightarrow> (thrown + 'a) \<times> retry_state" where
  "withConditionalRetry_loop operation config context random attempt lastError s =
     (if attempt \<le> maxAttempts config then
        (case operation (calls s) of
           Resolves v \<Rightarrow> (Inr v, s\<lparr>calls := calls s + 1\<rparr>)
         | Rejects x \<Rightarrow>
             (if \<not> isRetryableError (as_error x) \<or> attempt = maxAttempts config
              then (Inl (withConditionalRetry_throw (Some (as_error x))),
                    s\<lparr>calls := calls s + 1\<rparr>)
              else withConditionalRetry_loop operation config context random (attempt + 1)
                     (Some (as_error x))
                     (s\<lparr>calls := calls s + 1,
                        draws := draws s + 1,
                        slept := slept s @ [calculateDelay attempt config (random (draws s))],
                        warned := warned s @
                          [conditional_warning context attempt config
                             (calculateDelay attempt config (random (draws s))) (as_error x)]\<rparr>)))
      else (Inl (withConditionalRetry_throw lastError), s))"
  by pat_completeness auto
termination
  by (relation "measure (\<lambda>(operation, config, context, random, attempt, lastError, s).
        maxAttempts config + 1 - attempt)") auto

declare withConditionalRetry_loop.simps [simp del]

definition withConditionalRetry ::
  "(nat \<Rightarrow> 'a outcome) \<Rightarrow> RetryConfig \<Rightarrow> string \<Rightarrow> (nat \<Rightarrow> real) \<Rightarrow> (thrown + 'a) \<times> retry_state" where
  "withConditionalRetry operation config context random =
     withConditionalRetry_loop operation config context random 1 None initial_state"

section \<open>Scheduler (services/scheduler.ts)\<close>

subsection \<open>Dates\<close>

text \<open>
  A \<open>Date\<close> holds a time value: milliseconds since the epoch, or \<open>NaN\<close> for an
  \<open>Invalid Date\<close> (\<open>None\<close>).  Local time is taken to be UTC without leap seconds or
  daylight saving, so every day has 24 hours; the epoch day was a Thursday.
  \<open>setHours0 t h\<close> is \<open>setHours(h, 0, 0, 0)\<close>; \<open>addHours\<close> and \<open>addDays\<close> are the
  date-fns functions.
\<close>

type_synonym date = "int option"

definition MS_PER_HOUR :: int where
  "MS_PER_HOUR = 1000 * 60 * 60"

definition MS_PER_DAY :: int where
  "MS_PER_DAY = 24 * MS_PER_HOUR"

definition getHours :: "int \<Rightarrow> int" where
  "getHours t = (t mod MS_PER_DAY) div MS_PER_HOUR"

definition getDay :: "int \<Rightarrow> int" where
  "getDay t = (t div MS_PER_DAY + 4) mod 7"

definition setHours0 :: "int \<Rightarrow> int \<Rightarrow> int" where
  "setHours0 t h = t - t mod MS_PER_DAY + h * MS_PER_HOUR"

definition addHours :: "int \<Rightarrow> int \<Rightarrow> int" where
  "addHours t n = t + n * MS_PER_HOUR"

definition addDays :: "int \<Rightarrow> int \<Rightarrow> int" where
  "addDays t n = t + n * MS_PER_DAY"

text \<open>\<open>a <= b\<close> on dates: a comparison with \<open>NaN\<close> is false.\<close>

fun date_le :: "date \<Rightarrow> date \<Rightarrow> bool" where
  "date_le (Some a) (Some b) = (a \<le> b)"
| "date_le _ _ = False"

subsection \<open>Data\<close>

text \<open>
  Of a stored pin only \<open>scheduled_for\<close> is read here: \<open>None\<close> is an absent (or empty)
  value, \<open>Some t\<close> a timestamp string, as written by \<open>toISOString()\<close>, that parses to
  the instant \<open>t\<close>.
\<close>

record GeneratedPin =
  source_url :: string
  scheduled_for :: "int option"

record OptimizedContent =
  title :: string
  description :: string
  hashtags :: "string list"
  contentType :: string

text \<open>
  The scheduler object.  The constructor always sets \<open>minGapMinutes\<close> to 60 and reads
  the other two fields from the environment.
\<close>

record PostizScheduler =
  optimalHours :: "int list"
  postsPerDay :: int
  minGapMinutes :: int

definition default_scheduler :: PostizScheduler where
  "default_scheduler = \<lparr>optimalHours = [9, 12, 15, 18, 21], postsPerDay = 5, minGapMinutes = 60\<rparr>"

subsection \<open>formatContentForPinterest\<close>

fun join_str :: "string \<Rightarrow> string list \<Rightarrow> string" where
  "join_str sep [] = []"
| "join_str sep [x] = x"
| "join_str sep (x # y # ys) = x @ sep @ join_str sep (y # ys)"

definition newline2 :: string where
  "newline2 = [CHR 0x0A, CHR 0x0A]"

definition combinedContent :: "OptimizedContent \<Rightarrow> string" where
  "combinedContent content =
     (let formattedContent = title content @ newline2 @ description content
      in if length (hashtags content) > 0
         then formattedContent @ newline2
                @ join_str '' '' (map (\<lambda>tag. ''#'' @ tag) (take 30 (hashtags content)))
         else formattedContent)"

definition formatContentForPinterest :: "OptimizedContent \<Rightarrow> string" where
  "formatContentForPinterest content =
     (let formattedContent = combinedContent content
      in if length formattedContent > 500
         then take 497 formattedContent @ ''...''
         else formattedContent)"

subsection \<open>getNextOptimalTime\<close>

text \<open>
  \<open>Array.prototype.find\<close> returns the first element, in array order, that satisfies
  the predicate.  \<open>if (nextHourToday)\<close> is a truthiness test: it fails for \<open>undefined\<close> and
  for the number 0.  On an \<open>Invalid Date\<close> every step yields \<open>NaN\<close> again.
\<close>

definition nextDayFirstHour :: "PostizScheduler \<Rightarrow> int \<Rightarrow> date" where
  "nextDayFirstHour s t =
     (case optimalHours s of [] \<Rightarrow> None | h0 # _ \<Rightarrow> Some (setHours0 (addDays t 1) h0))"

fun getNextOptimalTime :: "PostizScheduler \<Rightarrow> date \<Rightarrow> date" where
  "getNextOptimalTime s None = None"
| "getNextOptimalTime s (Some target) =
     (let currentHour = getHours target;
          nextHourToday = find (\<lambda>hour. hour > currentHour) (optimalHours s)
      in case nextHourToday of
           Some h \<Rightarrow> if h \<noteq> 0 then Some (setHours0 target h) else nextDayFirstHour s target
         | None \<Rightarrow> nextDayFirstHour s target)"

subsection \<open>isTimeSlotAvailable\<close>

text \<open>
  \<open>lookup\<close> is the outcome of \<open>db.getScheduledPins(100)\<close>: \<open>None\<close> when it rejects (the
  \<open>catch\<close> branch), otherwise the rows.
\<close>

definition conflicts :: "GeneratedPin list \<Rightarrow> date \<Rightarrow> GeneratedPin list" where
  "conflicts conflictingPosts targetTime =
     (let gapStart = map_option (\<lambda>t. addHours t (- 1)) targetTime;
          gapEnd = map_option (\<lambda>t. addHours t 1) targetTime
      in filter (\<lambda>pin. case scheduled_for pin of
                          None \<Rightarrow> False
                        | Some scheduledTime \<Rightarrow>
                            date_le gapStart (Some scheduledTime) \<and> date_le (Some scheduledTime) gapEnd)
           conflictingPosts)"

definition isTimeSlotAvailable :: "PostizScheduler \<Rightarrow> GeneratedPin list option \<Rightarrow> date \<Rightarrow> bool" where
  "isTimeSlotAvailable s lookup targetTime =
     (case lookup of
        None \<Rightarrow> False
      | Some conflictingPosts \<Rightarrow> length (conflicts conflictingPosts targetTime) = 0)"

subsection \<open>findOptimalPostingTime\<close>

text \<open>
  \<open>now\<close> is the clock reading \<open>new Date()\<close>; \<open>db k\<close> is the outcome of the \<open>k\<close>-th
  lookup the search makes (one per iteration).
\<close>

function findOptimalPostingTime_loop ::
  "PostizScheduler \<Rightarrow> int \<Rightarrow> (nat \<Rightarrow> GeneratedPin list option) \<Rightarrow> date \<Rightarrow> nat \<Rightarrow> date" where
  "findOptimalPostingTime_loop s now db targetDate attempts =
     (if attempts < 50 then
        (if isTimeSlotAvailable s (db attempts) targetDate then targetDate
         else findOptimalPostingTime_loop s now db
                (getNextOptimalTime s (map_option (\<lambda>t. addHours t 1) targetDate)) (attempts + 1))
      else nextDayFirstHour s now)"
  by pat_completeness auto
termination
  by (relation "measure (\<lambda>(s, now, db, targetDate, attempts). 50 - attempts)") auto

declare findOptimalPostingTime_loop.simps [simp del]

definition findOptimalPostingTime ::
  "PostizScheduler \<Rightarrow> int \<Rightarrow> (nat \<Rightarrow> GeneratedPin list option) \<Rightarrow> date" where
  "findOptimalPostingTime s now db =
     findOptimalPostingTime_loop s now db (getNextOptimalTime s (Some now)) 0"

subsection \<open>getScheduleStats\<close>

record ScheduleStats =
  totalScheduled :: nat
  postsToday :: nat
  postsThisWeek :: nat
  nextAvailableSlot :: date
  averageGapHours :: real

text \<open>The \<open>for\<close> loop over \<open>sortedPosts\<close>, from index \<open>i\<close> on.\<close>

function gap_loop :: "int list \<Rightarrow> nat \<Rightarrow> real \<Rightarrow> nat \<Rightarrow> real \<times> nat" where
  "gap_loop sortedPosts i totalGapHours gapCount =
     (if i < length sortedPosts then
        gap_loop sortedPosts (i + 1)
          (totalGapHours + real_of_int (sortedPosts ! i - sortedPosts ! (i - 1)) / (1000 * 60 * 60))
          (gapCount + 1)
      else (totalGapHours, gapCount))"
  by pat_completeness auto
termination
  by (relation "measure (\<lambda>(sortedPosts, i, totalGapHours, gapCount). length sortedPosts - i)") auto

declare gap_loop.simps [simp del]

text \<open>
  \<open>now\<close> is the clock reading at the start of the \<open>try\<close> block, \<open>now2\<close> the later reading
  taken by \<open>findOptimalPostingTime\<close> or by the \<open>catch\<close> branch.  \<open>db 0\<close> is the outcome of
  \<open>getScheduledPins(200)\<close>, the later lookups are those of the slot search.  Two dates
  print the same \<open>yyyy-MM-dd\<close> exactly when they fall on the same day, and
  \<open>setDate(getDate() - getDay())\<close> moves the date back by \<open>getDay()\<close> days and keeps the
  time of day.
\<close>

definition thisWeekStart :: "int \<Rightarrow> int" where
  "thisWeekStart now = addDays now (- getDay now)"

definition getScheduleStats ::
  "PostizScheduler \<Rightarrow> int \<Rightarrow> int \<Rightarrow> (nat \<Rightarrow> GeneratedPin list option) \<Rightarrow> ScheduleStats" where
  "getScheduleStats s now now2 db =
     (case db 0 of
        None \<Rightarrow>
          \<lparr>totalScheduled = 0, postsToday = 0, postsThisWeek = 0,
           nextAvailableSlot = Some now2, averageGapHours = 0\<rparr>
      | Some scheduledPins \<Rightarrow>
          (let sortedPosts =
                 sort (map (\<lambda>pin. the (scheduled_for pin))
                        (filter (\<lambda>pin. scheduled_for pin \<noteq> None) scheduledPins));
               totalGapHours = fst (gap_loop sortedPosts 1 0 0);
               gapCount = snd (gap_loop sortedPosts 1 0 0);
               average = (if gapCount > 0 then totalGapHours / real gapCount else 0)
           in \<lparr>totalScheduled = length scheduledPins,
               postsToday =
                 length (filter (\<lambda>pin. case scheduled_for pin of
                                          None \<Rightarrow> False
                                        | Some t \<Rightarrow> t div MS_PER_DAY = now div MS_PER_DAY)
                           scheduledPins),
               postsThisWeek =
                 length (filter (\<lambda>pin. case scheduled_for pin of
                                          None \<Rightarrow> False
                                        | Some t \<Rightarrow> t \<ge> thisWeekStart now)
                           scheduledPins),
               nextAvailableSlot = findOptimalPostingTime s now2 (\<lambda>k. db (k + 1)),
               averageGapHours = real_of_int (round (average * 100)) / 100\<rparr>))"

subsection \<open>Notions used to state the properties\<close>

text \<open>An instant on the hour whose hour of day is one of the optimal hours.\<close>

definition is_optimal_instant :: "PostizScheduler \<Rightarrow> int \<Rightarrow> bool" where
  "is_optimal_instant s t = (t mod MS_PER_HOUR = 0 \<and> getHours t \<in> set (optimalHours s))"

text \<open>The \<open>k\<close>-th candidate slot the search of \<open>findOptimalPostingTime\<close> looks at.\<close>

fun candidate :: "PostizScheduler \<Rightarrow> int \<Rightarrow> nat \<Rightarrow> date" where
  "candidate s now 0 = getNextOptimalTime s (Some now)"
| "candidate s now (Suc k) =
     getNextOptimalTime s (map_option (\<lambda>t. addHours t 1) (candidate s now k))"





text \<open>The instants of the pins that have one, in the order of the rows.\<close>

definition scheduled_instants :: "GeneratedPin list \<Rightarrow> int list" where
  "scheduled_instants pins = List.map_filter scheduled_for pins"

text \<open>\<open>at_utc day h m\<close>: the instant \<open>h:m\<close> on day number \<open>day\<close> since the epoch.\<close>

definition at_utc :: "int \<Rightarrow> int \<Rightarrow> int \<Rightarrow> int" where
  "at_utc day h m = day * MS_PER_DAY + h * MS_PER_HOUR + m * 60000"

subsection \<open>Example inputs\<close>


definition half_random :: "nat \<Rightarrow> real" where
  "half_random i = 1 / 2"

definition always_network_down :: "nat \<Rightarrow> nat outcome" where
  "always_network_down i = Rejects (ErrorValue (JsError ''Error'' ''network down''))"

definition always_invalid_input :: "nat \<Rightarrow> nat outcome" where
  "always_invalid_input i = Rejects (ErrorValue (JsError ''Error'' ''invalid input''))"

definition succeeds_on_second :: "nat \<Rightarrow> nat outcome" where
  "succeeds_on_second i = (if i = 0 then Rejects (OtherValue ''boom'') else Resolves 7)"

definition pin_at :: "int \<Rightarrow> GeneratedPin" where
  "pin_at t = \<lparr>source_url = ''https://example.com/a'', scheduled_for = Some t\<rparr>"

definition lookup_returns :: "GeneratedPin list \<Rightarrow> nat \<Rightarrow> GeneratedPin list option" where
  "lookup_returns pins k = Some pins"

definition lookup_always_fails :: "nat \<Rightarrow> GeneratedPin list option" where
  "lookup_always_fails k = None"

definition unsorted_scheduler :: PostizScheduler where
  "unsorted_scheduler = \<lparr>optimalHours = [21, 9], postsPerDay = 5, minGapMinutes = 60\<rparr>"

definition long_content :: OptimizedContent where
  "long_content = \<lparr>title = replicate 600 (CHR ''a''), description = ''d'', hashtags = [],
      contentType = ''other''\<rparr>"

section \<open>Properties of the retry utilities\<close>

subsection \<open>Auxiliary facts\<close>





text \<open>
  The loop of \<open>withRetry\<close>, entered at some attempt with \<open>n\<close> further failures ahead:
  it ends at the first success, or at the last allowed attempt.
\<close>

lemma withRetry_loop_success:
  "attempt + n \<le> maxAttempts config \<Longrightarrow>
   (\<forall>i<n. \<exists>x. operation (calls s + i) = Rejects x) \<Longrightarrow>
   operation (calls s + n) = Resolves v \<Longrightarrow>
   fst (withRetry_loop operation config context random attempt lastError s) = Inr v \<and>
   calls (snd (withRetry_loop operation config context random attempt lastError s)) = calls s + n + 1"
proof (induction n arbitrary: attempt lastError s)
  case 0
  then show ?case
    by (subst (1 2) withRetry_loop.simps) simp
next
  case (Suc n)
  from Suc.prems(2) obtain y where y: "operation (calls s) = Rejects y"
    by (metis add.right_neutral zero_less_Suc)
  let ?d = "calculateDelay attempt config (random (draws s))"
  let ?s = "s\<lparr>calls := calls s + 1, draws := draws s + 1, slept := slept s @ [?d],
               warned := warned s @ [retry_warning context attempt config ?d (as_error y)]\<rparr>"
  have step: "withRetry_loop operation config context random attempt lastError s =
      withRetry_loop operation config context random (attempt + 1) (Some (as_error y)) ?s"
    using Suc.prems(1) y by (subst withRetry_loop.simps) simp
  have a: "attempt + 1 + n \<le> maxAttempts config" using Suc.prems(1) by simp
  have b: "\<forall>i<n. \<exists>z. operation (calls ?s + i) = Rejects z"
  proof (intro allI impI)
    fix i assume "i < n"
    then have "Suc i < Suc n" by simp
    with Suc.prems(2) obtain z where "operation (calls s + Suc i) = Rejects z" by blast
    then show "\<exists>z. operation (calls ?s + i) = Rejects z" by simp
  qed
  have c: "operation (calls ?s + n) = Resolves v" using Suc.prems(3) by simp
  from Suc.IH [OF a b c] show ?case unfolding step by simp
qed

lemma withRetry_loop_exhausted:
  "attempt + n = maxAttempts config \<Longrightarrow>
   (\<forall>i<n. \<exists>x. operation (calls s + i) = Rejects x) \<Longrightarrow>
   operation (calls s + n) = Rejects x \<Longrightarrow>
   fst (withRetry_loop operation config context random attempt lastError s)
     = Inl (withRetry_throw config context (Some (as_error x))) \<and>
   calls (snd (withRetry_loop operation config context random attempt lastError s)) = calls s + n + 1"
proof (induction n arbitrary: attempt lastError s)
  case 0
  then show ?case
    by (subst (1 2) withRetry_loop.simps) simp
next
  case (Suc n)
  from Suc.prems(2) obtain y where y: "operation (calls s) = Rejects y"
    by (metis add.right_neutral zero_less_Suc)
  let ?d = "calculateDelay attempt config (random (draws s))"
  let ?s = "s\<lparr>calls := calls s + 1, draws := draws s + 1, slept := slept s @ [?d],
               warned := warned s @ [retry_warning context attempt config ?d (as_error y)]\<rparr>"
  have step: "withRetry_loop operation config context random attempt lastError s =
      withRetry_loop operation config context random (attempt + 1) (Some (as_error y)) ?s"
    using Suc.prems(1) y by (subst withRetry_loop.simps) auto
  have a: "attempt + 1 + n = maxAttempts config" using Suc.prems(1) by simp
  have b: "\<forall>i<n. \<exists>z. operation (calls ?s + i) = Rejects z"
  proof (intro allI impI)
    fix i assume "i < n"
    then have "Suc i < Suc n" by simp
    with Suc.prems(2) obtain z where "operation (calls s + Suc i) = Rejects z" by blast
    then show "\<exists>z. operation (calls ?s + i) = Rejects z" by simp
  qed
  have c: "operation (calls ?s + n) = Rejects x" using Suc.prems(3) by simp
  from Suc.IH [OF a b c] show ?case unfolding step by simp
qed


lemma show_nat_3: "show_nat 3 = ''3''"
  by code_simp

subsection \<open>withRetry: attempts and the final error\<close>

text \<open>
  Claim C1.  Let \<open>maxAttempts \<ge> 1\<close>.  If attempt \<open>k \<le> maxAttempts\<close> of the operation
  resolves with \<open>v\<close> and all earlier attempts reject, \<open>withRetry\<close> resolves with \<open>v\<close> and
  the operation has been invoked exactly \<open>k\<close> times.  If every attempt rejects,
  \<open>withRetry\<close> invokes the operation exactly \<open>maxAttempts\<close> times and rejects with one
  new \<open>Error\<close> whose message is
  \<open>"<label> failed after <maxAttempts> attempts. Last error: <message of the last error>"\<close>.
\<close>

theorem withRetry_attempts:
  assumes "1 \<le> maxAttempts config"
  shows "(\<forall>k v. 1 \<le> k \<and> k \<le> maxAttempts config \<and> (\<forall>i<k - 1. \<exists>x. operation i = Rejects x)
             \<and> operation (k - 1) = Resolves v
           \<longrightarrow> fst (withRetry operation config context random) = Inr v
               \<and> calls (snd (withRetry operation config context random)) = k)
       \<and> (\<forall>x. (\<forall>i<maxAttempts config - 1. \<exists>y. operation i = Rejects y)
             \<and> operation (maxAttempts config - 1) = Rejects x
           \<longrightarrow> fst (withRetry operation config context random)
                 = Inl (ErrorValue (JsError ''Error''
                     (context @ '' failed after '' @ show_nat (maxAttempts config)
                        @ '' attempts. Last error: '' @ message (as_error x))))
               \<and> calls (snd (withRetry operation config context random)) = maxAttempts config)"
proof (intro conjI allI impI)
  fix k v
  assume h: "1 \<le> k \<and> k \<le> maxAttempts config \<and> (\<forall>i<k - 1. \<exists>x. operation i = Rejects x)
             \<and> operation (k - 1) = Resolves v"
  then have "1 + (k - 1) \<le> maxAttempts config" by simp
  from withRetry_loop_success [OF this, of operation initial_state v "context" random None] h
  show "fst (withRetry operation config context random) = Inr v"
    and "calls (snd (withRetry operation config context random)) = k"
    by (simp_all add: withRetry_def initial_state_def)
next
  fix x
  assume h: "(\<forall>i<maxAttempts config - 1. \<exists>y. operation i = Rejects y)
             \<and> operation (maxAttempts config - 1) = Rejects x"
  from assms have "1 + (maxAttempts config - 1) = maxAttempts config" by simp
  from withRetry_loop_exhausted [OF this, of operation initial_state x "context" random None]
    h assms
  show "fst (withRetry operation config context random)
                 = Inl (ErrorValue (JsError ''Error''
                     (context @ '' failed after '' @ show_nat (maxAttempts config)
                        @ '' attempts. Last error: '' @ message (as_error x))))"
    and "calls (snd (withRetry operation config context random)) = maxAttempts config"
    by (simp_all add: withRetry_def initial_state_def withRetry_throw_def)
qed

theorem withRetry_attempts_witness:
  "fst (withRetry succeeds_on_second DEFAULT_RETRY_CONFIG ''op'' half_random) = Inr 7
   \<and> calls (snd (withRetry succeeds_on_second DEFAULT_RETRY_CONFIG ''op'' half_random)) = 2
   \<and> fst (withRetry always_network_down DEFAULT_RETRY_CONFIG ''op'' half_random)
       = Inl (ErrorValue (JsError ''Error'' ''op failed after 3 attempts. Last error: network down''))
   \<and> calls (snd (withRetry always_network_down DEFAULT_RETRY_CONFIG ''op'' half_random)) = 3"
proof -
  have m: "1 \<le> maxAttempts DEFAULT_RETRY_CONFIG"
    by (simp add: DEFAULT_RETRY_CONFIG_def)
  have ok: "1 \<le> (2::nat) \<and> 2 \<le> maxAttempts DEFAULT_RETRY_CONFIG
      \<and> (\<forall>i<2 - 1. \<exists>x. succeeds_on_second i = Rejects x)
      \<and> succeeds_on_second (2 - 1) = Resolves 7"
    by (simp add: DEFAULT_RETRY_CONFIG_def succeeds_on_second_def)
  have bad: "(\<forall>i<maxAttempts DEFAULT_RETRY_CONFIG - 1. \<exists>y. always_network_down i = Rejects y)
      \<and> always_network_down (maxAttempts DEFAULT_RETRY_CONFIG - 1)
          = Rejects (ErrorValue (JsError ''Error'' ''network down''))"
    by (simp add: always_network_down_def)
  note first = withRetry_attempts
      [of DEFAULT_RETRY_CONFIG succeeds_on_second "''op''" half_random, OF m, THEN conjunct1, rule_format, OF ok]
  note second = withRetry_attempts
      [of DEFAULT_RETRY_CONFIG always_network_down "''op''" half_random, OF m, THEN conjunct2, rule_format, OF bad]
  have n: "maxAttempts DEFAULT_RETRY_CONFIG = 3"
    by (simp add: DEFAULT_RETRY_CONFIG_def)
  from first second show ?thesis
    by (simp add: n show_nat_3)
qed

subsection \<open>withConditionalRetry: errors that are not transient\<close>

text \<open>
  Claim C5.  If the first invocation of the operation rejects with an error that matches
  none of the transient-error patterns, \<open>withConditionalRetry\<close> rejects with that error
  at once: the operation has been invoked exactly once, no random number was drawn, no
  delay was slept and no warning printed, whatever \<open>maxAttempts \<ge> 1\<close> allows.
\<close>

theorem withConditionalRetry_nonretryable_first:
  assumes "1 \<le> maxAttempts config"
    and "operation 0 = Rejects x"
    and "\<not> isRetryableError (as_error x)"
  shows "withConditionalRetry operation config context random
           = (Inl (ErrorValue (as_error x)), \<lparr>calls = 1, draws = 0, slept = [], warned = []\<rparr>)"
  unfolding withConditionalRetry_def
  using assms
  by (subst withConditionalRetry_loop.simps)
     (simp add: initial_state_def withConditionalRetry_throw_def)

theorem withConditionalRetry_nonretryable_first_witness:
  "withConditionalRetry always_invalid_input DEFAULT_RETRY_CONFIG ''scrape'' half_random
     = (Inl (ErrorValue (JsError ''Error'' ''invalid input'')),
        \<lparr>calls = 1, draws = 0, slept = [], warned = []\<rparr>)"
proof -
  have a: "1 \<le> maxAttempts DEFAULT_RETRY_CONFIG" by (simp add: DEFAULT_RETRY_CONFIG_def)
  have b: "always_invalid_input 0 = Rejects (ErrorValue (JsError ''Error'' ''invalid input''))"
    by (simp add: always_invalid_input_def)
  have c: "\<not> isRetryableError (as_error (ErrorValue (JsError ''Error'' ''invalid input'')))"
    by code_simp
  from withConditionalRetry_nonretryable_first
         [where operation = always_invalid_input and config = DEFAULT_RETRY_CONFIG, OF a b c]
  show ?thesis by simp
qed

subsection \<open>Exhausted retries\<close>






subsection \<open>calculateDelay: bounds\<close>




section \<open>Properties of the scheduler\<close>

subsection \<open>formatContentForPinterest\<close>

text \<open>
  Claim C10.  The post body is at most 500 characters long.  The combined text is the
  title, an empty line, the description and, when there are hashtags, an empty line and
  at most the first 30 hashtags, each prefixed with \<open>#\<close> and separated by single spaces.
  Whenever the combined text is longer than 500 characters the result is its first 497
  characters followed by \<open>...\<close>; otherwise it is the combined text.
\<close>

theorem formatContentForPinterest_limit:
  "length (formatContentForPinterest content) \<le> 500
   \<and> (length (combinedContent content) > 500
        \<longrightarrow> formatContentForPinterest content = take 497 (combinedContent content) @ ''...'')
   \<and> (length (combinedContent content) \<le> 500
        \<longrightarrow> formatContentForPinterest content = combinedContent content)
   \<and> combinedContent content
        = title content @ newline2 @ description content
          @ (if hashtags content = [] then []
             else newline2 @ join_str '' '' (map (\<lambda>tag. ''#'' @ tag) (take 30 (hashtags content))))
   \<and> length (take 30 (hashtags content)) \<le> 30"
  by (auto simp: formatContentForPinterest_def combinedContent_def Let_def)

theorem formatContentForPinterest_limit_witness:
  "length (combinedContent long_content) > 500
   \<and> formatContentForPinterest long_content = replicate 497 (CHR ''a'') @ ''...''
   \<and> length (formatContentForPinterest long_content) = 500"
proof -
  have c: "combinedContent long_content = replicate 600 (CHR ''a'') @ newline2 @ ''d''"
    by (simp add: combinedContent_def long_content_def)
  have l: "length (combinedContent long_content) > 500"
    by (simp add: c newline2_def)
  from formatContentForPinterest_limit [of long_content] l
  have "formatContentForPinterest long_content = take 497 (combinedContent long_content) @ ''...''"
    by blast
  then have "formatContentForPinterest long_content = replicate 497 (CHR ''a'') @ ''...''"
    by (simp add: c)
  with l show ?thesis by simp
qed

subsection \<open>Date arithmetic\<close>

text \<open>
  An instant is determined by its day number, its hour of day and the milliseconds past
  the hour.
\<close>

lemma coords:
  assumes "0 \<le> h" "h \<le> 23" "0 \<le> r" "r < MS_PER_HOUR"
    and "t = d * MS_PER_DAY + h * MS_PER_HOUR + r"
  shows "t div MS_PER_DAY = d" and "getHours t = h" and "t mod MS_PER_HOUR = r"
proof -
  define x where "x = h * 3600000 + r"
  have x: "0 \<le> x" "x < 86400000"
    using assms(1-4) by (simp_all add: x_def MS_PER_HOUR_def)
  have t: "t = d * 86400000 + x"
    using assms(5) by (simp add: x_def MS_PER_DAY_def MS_PER_HOUR_def)
  have xd: "x div 86400000 = 0" using x by simp
  have xm: "x mod 86400000 = x" using x by simp
  show "t div MS_PER_DAY = d"
    unfolding MS_PER_DAY_def MS_PER_HOUR_def t using xd by simp
  have tm: "t mod 86400000 = x" unfolding t using xm by simp
  have rd: "r div 3600000 = 0" using assms(3,4) by (simp add: MS_PER_HOUR_def)
  have "x div 3600000 = h" unfolding x_def using rd by simp
  then show "getHours t = h"
    unfolding getHours_def MS_PER_DAY_def MS_PER_HOUR_def using tm by simp
  have "t = (d * 24 + h) * 3600000 + r" unfolding t x_def by simp
  then have "t mod 3600000 = r mod 3600000" by (metis mod_mult_self3)
  then show "t mod MS_PER_HOUR = r"
    using assms(3,4) by (simp add: MS_PER_HOUR_def)
qed

lemma getHours_bounds: "0 \<le> getHours t \<and> getHours t \<le> 23"
proof -
  have a: "0 \<le> t mod 86400000" "t mod 86400000 < 86400000" by simp_all
  define x where "x = t mod 86400000"
  have b: "x = (x div 3600000) * 3600000 + x mod 3600000" by simp
  have c: "0 \<le> x mod 3600000" "x mod 3600000 < 3600000" by simp_all
  from a b c have "0 \<le> x div 3600000 \<and> x div 3600000 \<le> 23"
    unfolding x_def [symmetric] by linarith
  then show ?thesis by (simp add: getHours_def MS_PER_DAY_def MS_PER_HOUR_def x_def)
qed

lemma decompose:
  "t = (t div MS_PER_DAY) * MS_PER_DAY + getHours t * MS_PER_HOUR + t mod MS_PER_HOUR"
proof -
  have "(t mod MS_PER_DAY) mod MS_PER_HOUR = t mod MS_PER_HOUR"
    by (simp add: MS_PER_DAY_def mod_mod_cancel)
  then have "t mod MS_PER_DAY = getHours t * MS_PER_HOUR + t mod MS_PER_HOUR"
    unfolding getHours_def by (metis div_mult_mod_eq)
  then show ?thesis by (metis add.assoc div_mult_mod_eq)
qed

lemma mod_hour_bounds: "0 \<le> t mod MS_PER_HOUR \<and> t mod MS_PER_HOUR < MS_PER_HOUR"
  by (simp add: MS_PER_HOUR_def)

lemma setHours0_eq: "setHours0 t h = (t div MS_PER_DAY) * MS_PER_DAY + h * MS_PER_HOUR"
  unfolding setHours0_def by (simp add: minus_mod_eq_div_mult)

lemma addDays_div: "addDays t 1 div MS_PER_DAY = t div MS_PER_DAY + 1"
  by (simp add: addDays_def MS_PER_DAY_def MS_PER_HOUR_def)

lemma find_sorted_least:
  "sorted hs \<Longrightarrow> find (\<lambda>hour. hour > c) hs = Some h \<Longrightarrow>
   h \<in> set hs \<and> c < h \<and> (\<forall>h' \<in> set hs. c < h' \<longrightarrow> h \<le> h')"
  for c :: int
  by (induction hs) (auto split: if_splits)
lemma optimal_instant_coords:
  assumes "is_optimal_instant s t" and "\<forall>h\<in>set (optimalHours s). 0 \<le> h \<and> h \<le> 23"
  shows "t = (t div MS_PER_DAY) * 86400000 + getHours t * 3600000"
    and "getHours t \<in> set (optimalHours s)"
  using assms decompose [of t]
  by (simp_all add: is_optimal_instant_def MS_PER_DAY_def MS_PER_HOUR_def)

lemma start_coords:
  "start = (start div MS_PER_DAY) * 86400000 + getHours start * 3600000 + start mod MS_PER_HOUR"
  "0 \<le> start mod MS_PER_HOUR" "start mod MS_PER_HOUR < 3600000"
  using decompose [of start] mod_hour_bounds [of start]
  by (simp_all add: MS_PER_DAY_def MS_PER_HOUR_def)

lemma on_hour_optimal:
  assumes "h \<in> set (optimalHours s)" "0 \<le> h" "h \<le> 23"
    and "r = d * MS_PER_DAY + h * MS_PER_HOUR"
  shows "is_optimal_instant s r" and "r div MS_PER_DAY = d" and "getHours r = h"
proof -
  have z: "(0::int) \<le> 0" "(0::int) < MS_PER_HOUR" by (simp_all add: MS_PER_HOUR_def)
  have r: "r = d * MS_PER_DAY + h * MS_PER_HOUR + 0" using assms(4) by simp
  note c = coords [OF assms(2,3) z r]
  from c assms(1) show "is_optimal_instant s r" by (simp add: is_optimal_instant_def)
  from c show "r div MS_PER_DAY = d" and "getHours r = h" by simp_all
qed

lemma later_instant_cases:
  fixes start t d' h' d0 hf rem :: int
  assumes "start < t"
    and "t = d' * 86400000 + h' * 3600000" and "0 \<le> h'" and "h' \<le> 23"
    and "start = d0 * 86400000 + hf * 3600000 + rem" and "0 \<le> rem" and "rem < 3600000"
    and "0 \<le> hf" and "hf \<le> 23"
  shows "(d' = d0 \<and> hf < h') \<or> d0 + 1 \<le> d'"
proof (cases "d' < d0")
  case True
  then have "d' * 86400000 + 86400000 \<le> d0 * 86400000" by simp
  with assms show ?thesis by linarith
next
  case False
  show ?thesis
  proof (cases "d' = d0")
    case True
    with assms have "hf * 3600000 < h' * 3600000" by linarith
    then have "hf < h'" by simp
    with True show ?thesis by simp
  next
    case False
    with \<open>\<not> d' < d0\<close> show ?thesis by simp
  qed
qed
lemma ex_10: "getNextOptimalTime default_scheduler (Some (at_utc day 10 0)) = Some (at_utc day 12 0)"
  by (simp add: default_scheduler_def at_utc_def getHours_def setHours0_def MS_PER_DAY_def MS_PER_HOUR_def)

lemma ex_22: "getNextOptimalTime default_scheduler (Some (at_utc day 22 0)) = Some (at_utc (day + 1) 9 0)"
  by (simp add: default_scheduler_def at_utc_def getHours_def setHours0_def addDays_def
      nextDayFirstHour_def MS_PER_DAY_def MS_PER_HOUR_def algebra_simps)

subsection \<open>getNextOptimalTime\<close>

text \<open>
  Claim C2 as worded fails in two ways.  An instant exactly on an optimal hour is itself
  the earliest optimal instant not before it, but the search wants an hour strictly
  greater than the current one: from 12:00:00.000 the result is 15:00.  And \<open>find\<close>
  takes the first later hour in list order, which is the earliest only when the list is
  ascending: with hours \<open>[21, 9]\<close> and 08:00 the result is 21:00, not 09:00.
\<close>

theorem getNextOptimalTime_counterexample:
  "is_optimal_instant default_scheduler (at_utc 19732 12 0)
   \<and> at_utc 19732 12 0 \<ge> at_utc 19732 12 0
   \<and> getNextOptimalTime default_scheduler (Some (at_utc 19732 12 0)) = Some (at_utc 19732 15 0)
   \<and> at_utc 19732 12 0 < at_utc 19732 15 0
   \<and> optimalHours unsorted_scheduler = [21, 9]
   \<and> is_optimal_instant unsorted_scheduler (at_utc 19732 9 0)
   \<and> at_utc 19732 9 0 \<ge> at_utc 19732 8 0
   \<and> getNextOptimalTime unsorted_scheduler (Some (at_utc 19732 8 0)) = Some (at_utc 19732 21 0)
   \<and> at_utc 19732 9 0 < at_utc 19732 21 0"
  by (simp add: is_optimal_instant_def default_scheduler_def unsorted_scheduler_def at_utc_def
      getHours_def setHours0_def MS_PER_DAY_def MS_PER_HOUR_def)

text \<open>
  Claim C2, amended.  For every instant \<open>start\<close> and every non-empty, ascending list of
  optimal hours in \<open>[0,23]\<close>, \<open>getNextOptimalTime\<close> returns the earliest instant strictly
  after \<open>start\<close> that lies on the hour (minutes, seconds and milliseconds zero) and whose
  hour of day is an optimal hour: on the same day when an optimal hour greater than the
  hour of \<open>start\<close> exists, otherwise on the following day at the first optimal hour.
  With the hours \<open>[9,12,15,18,21]\<close>, 10:00 yields 12:00 of the same day and 22:00
  yields 09:00 of the next day.
\<close>

theorem getNextOptimalTime_earliest:
  assumes "sorted (optimalHours s)"
    and "optimalHours s = h0 # rest"
    and "\<forall>h\<in>set (optimalHours s). 0 \<le> h \<and> h \<le> 23"
  shows "(\<exists>r. getNextOptimalTime s (Some start) = Some r
           \<and> is_optimal_instant s r \<and> start < r
           \<and> (\<forall>t. is_optimal_instant s t \<and> start < t \<longrightarrow> r \<le> t)
           \<and> ((\<exists>h\<in>set (optimalHours s). getHours start < h)
                \<longrightarrow> r div MS_PER_DAY = start div MS_PER_DAY)
           \<and> (\<not> (\<exists>h\<in>set (optimalHours s). getHours start < h)
                \<longrightarrow> r div MS_PER_DAY = start div MS_PER_DAY + 1 \<and> getHours r = h0))
       \<and> getNextOptimalTime default_scheduler (Some (at_utc day 10 0)) = Some (at_utc day 12 0)
       \<and> getNextOptimalTime default_scheduler (Some (at_utc day 22 0))
           = Some (at_utc (day + 1) 9 0)"
proof -
  define d0 where "d0 = start div MS_PER_DAY"
  define hf where "hf = getHours start"
  define rem where "rem = start mod MS_PER_HOUR"
  have st: "start = d0 * 86400000 + hf * 3600000 + rem" "0 \<le> rem" "rem < 3600000"
    using start_coords [of start] by (simp_all add: d0_def hf_def rem_def)
  have hf: "0 \<le> hf" "hf \<le> 23" using getHours_bounds [of start] by (simp_all add: hf_def)
  have h0: "h0 \<in> set (optimalHours s)" "0 \<le> h0" "h0 \<le> 23"
    using assms(2,3) by auto
  have h0_least: "\<forall>h'\<in>set (optimalHours s). h0 \<le> h'"
    using assms(1,2) by auto
  have general: "\<exists>r. getNextOptimalTime s (Some start) = Some r
           \<and> is_optimal_instant s r \<and> start < r
           \<and> (\<forall>t. is_optimal_instant s t \<and> start < t \<longrightarrow> r \<le> t)
           \<and> ((\<exists>h\<in>set (optimalHours s). getHours start < h)
                \<longrightarrow> r div MS_PER_DAY = start div MS_PER_DAY)
           \<and> (\<not> (\<exists>h\<in>set (optimalHours s). getHours start < h)
                \<longrightarrow> r div MS_PER_DAY = start div MS_PER_DAY + 1 \<and> getHours r = h0)"
  proof (cases "find (\<lambda>hour. hour > hf) (optimalHours s)")
    case None
    then have none: "\<forall>h'\<in>set (optimalHours s). h' \<le> hf"
      by (auto simp: find_None_iff)
    define r where "r = setHours0 (addDays start 1) h0"
    have r: "r = (d0 + 1) * MS_PER_DAY + h0 * MS_PER_HOUR"
      by (simp add: r_def setHours0_eq addDays_div d0_def)
    note rc = on_hour_optimal [OF h0 r]
    have res: "getNextOptimalTime s (Some start) = Some r"
      using None assms(2) by (simp add: hf_def r_def nextDayFirstHour_def)
    have r': "r = d0 * 86400000 + 86400000 + h0 * 3600000"
      using r by (simp add: MS_PER_DAY_def MS_PER_HOUR_def algebra_simps)
    have lt: "start < r" using st hf h0 r' by linarith
    have least: "r \<le> t" if "is_optimal_instant s t \<and> start < t" for t
    proof -
      define d' where "d' = t div MS_PER_DAY"
      define h' where "h' = getHours t"
      from that optimal_instant_coords [OF _ assms(3), of t]
      have t: "t = d' * 86400000 + h' * 3600000" and hin: "h' \<in> set (optimalHours s)"
        by (simp_all add: d'_def h'_def)
      from hin assms(3) have hb: "0 \<le> h'" "h' \<le> 23" by auto
      from that have "start < t" by simp
      from later_instant_cases [OF this t hb st hf] none hin
      have "d0 + 1 \<le> d'" by auto
      moreover have "h0 \<le> h'" using h0_least hin by simp
      ultimately show ?thesis unfolding r' t by linarith
    qed
    have nolater: "\<not> (\<exists>h\<in>set (optimalHours s). getHours start < h)"
      using none by (auto simp: hf_def)
    from res rc lt least nolater show ?thesis
      by (auto simp: d0_def)
  next
    case (Some h)
    from find_sorted_least [OF assms(1) Some]
    have h: "h \<in> set (optimalHours s)" "hf < h" "\<forall>h'\<in>set (optimalHours s). hf < h' \<longrightarrow> h \<le> h'"
      by simp_all
    from h(1) assms(3) have hb: "0 \<le> h" "h \<le> 23" by auto
    from h(2) hf have hn: "h \<noteq> 0" by simp
    define r where "r = setHours0 start h"
    have r: "r = d0 * MS_PER_DAY + h * MS_PER_HOUR"
      by (simp add: r_def setHours0_eq d0_def)
    note rc = on_hour_optimal [OF h(1) hb r]
    have res: "getNextOptimalTime s (Some start) = Some r"
      using Some hn by (simp add: hf_def r_def)
    have r': "r = d0 * 86400000 + h * 3600000"
      using r by (simp add: MS_PER_DAY_def MS_PER_HOUR_def)
    have lt: "start < r" using st h(2) r' by linarith
    have least: "r \<le> t" if "is_optimal_instant s t \<and> start < t" for t
    proof -
      define d' where "d' = t div MS_PER_DAY"
      define h' where "h' = getHours t"
      from that optimal_instant_coords [OF _ assms(3), of t]
      have t: "t = d' * 86400000 + h' * 3600000" and hin: "h' \<in> set (optimalHours s)"
        by (simp_all add: d'_def h'_def)
      from hin assms(3) have hb': "0 \<le> h'" "h' \<le> 23" by auto
      from that have "start < t" by simp
      from later_instant_cases [OF this t hb' st hf]
      consider "d' = d0" "hf < h'" | "d0 + 1 \<le> d'" by blast
      then show ?thesis
      proof cases
        case 1
        with h(3) hin have "h \<le> h'" by simp
        with 1 show ?thesis unfolding r' t by simp
      next
        case 2
        with hb hb' show ?thesis unfolding r' t by linarith
      qed
    qed
    have later: "\<exists>h\<in>set (optimalHours s). getHours start < h"
      using h(1,2) by (auto simp: hf_def)
    from res rc lt least later show ?thesis
      by (auto simp: d0_def)
  qed
from general ex_10 [of day] ex_22 [of day] show ?thesis by blast
qed

theorem getNextOptimalTime_earliest_witness:
  "getNextOptimalTime default_scheduler (Some (at_utc 19732 10 0)) = Some (at_utc 19732 12 0)
   \<and> is_optimal_instant default_scheduler (at_utc 19732 12 0)
   \<and> at_utc 19732 10 0 < at_utc 19732 12 0
   \<and> at_utc 19732 12 0 \<le> at_utc 19732 15 0
   \<and> at_utc 19732 12 0 div MS_PER_DAY = at_utc 19732 10 0 div MS_PER_DAY"
proof -
  have a: "sorted (optimalHours default_scheduler)"
    by (simp add: default_scheduler_def)
  have b: "optimalHours default_scheduler = 9 # [12, 15, 18, 21]"
    by (simp add: default_scheduler_def)
  have c: "\<forall>h\<in>set (optimalHours default_scheduler). 0 \<le> h \<and> h \<le> 23"
    by (simp add: default_scheduler_def)
  from getNextOptimalTime_earliest [OF a b c, of "at_utc 19732 10 0" 19732]
  obtain r where r: "getNextOptimalTime default_scheduler (Some (at_utc 19732 10 0)) = Some r"
    "is_optimal_instant default_scheduler r" "at_utc 19732 10 0 < r"
    "\<forall>t. is_optimal_instant default_scheduler t \<and> at_utc 19732 10 0 < t \<longrightarrow> r \<le> t"
    "(\<exists>h\<in>set (optimalHours default_scheduler). getHours (at_utc 19732 10 0) < h)
       \<longrightarrow> r div MS_PER_DAY = at_utc 19732 10 0 div MS_PER_DAY"
    by blast
  have eq: "r = at_utc 19732 12 0" using r(1) ex_10 [of 19732] by simp
  have later: "is_optimal_instant default_scheduler (at_utc 19732 15 0)
      \<and> at_utc 19732 10 0 < at_utc 19732 15 0"
    by (simp add: is_optimal_instant_def default_scheduler_def at_utc_def getHours_def
        MS_PER_DAY_def MS_PER_HOUR_def)
  have hour: "\<exists>h\<in>set (optimalHours default_scheduler). getHours (at_utc 19732 10 0) < h"
    by (simp add: default_scheduler_def at_utc_def getHours_def MS_PER_DAY_def MS_PER_HOUR_def)
  from r later hour show ?thesis unfolding eq by blast
qed

subsection \<open>The search of findOptimalPostingTime\<close>




lemma getNextOptimalTime_Some:
  "optimalHours s \<noteq> [] \<Longrightarrow> \<exists>t. getNextOptimalTime s (Some x) = Some t"
  by (cases "optimalHours s") (auto simp: nextDayFirstHour_def Let_def split: option.splits)

lemma candidate_Some: "optimalHours s \<noteq> [] \<Longrightarrow> \<exists>t. candidate s now k = Some t"
proof (induction k)
  case 0
  then show ?case unfolding candidate.simps by (rule getNextOptimalTime_Some)
next
  case (Suc k)
  then obtain t where t: "candidate s now k = Some t" by blast
  show ?case unfolding candidate.simps t option.map
    using Suc.prems by (rule getNextOptimalTime_Some)
qed

lemma loop_exhausted:
  "n = 50 - a \<Longrightarrow> a \<le> 50 \<Longrightarrow>
   (\<forall>k. a \<le> k \<and> k < 50 \<longrightarrow> \<not> isTimeSlotAvailable s (db k) (candidate s now k)) \<Longrightarrow>
   findOptimalPostingTime_loop s now db (candidate s now a) a = nextDayFirstHour s now"
proof (induction n arbitrary: a)
  case 0
  then have "a = 50" by simp
  then show ?case by (subst findOptimalPostingTime_loop.simps) simp
next
  case (Suc n)
  then have lt: "a < 50" by simp
  with Suc.prems(3) have na: "\<not> isTimeSlotAvailable s (db a) (candidate s now a)" by simp
  have step: "findOptimalPostingTime_loop s now db (candidate s now a) a
      = findOptimalPostingTime_loop s now db (candidate s now (Suc a)) (Suc a)"
    using lt na by (subst findOptimalPostingTime_loop.simps) simp
  have "findOptimalPostingTime_loop s now db (candidate s now (Suc a)) (Suc a)
      = nextDayFirstHour s now"
    using Suc.prems lt by (intro Suc.IH) auto
  with step show ?case by simp
qed

lemma loop_first_available:
  "n = k - a \<Longrightarrow> a \<le> k \<Longrightarrow> k < 50 \<Longrightarrow>
   (\<forall>j. a \<le> j \<and> j < k \<longrightarrow> \<not> isTimeSlotAvailable s (db j) (candidate s now j)) \<Longrightarrow>
   isTimeSlotAvailable s (db k) (candidate s now k) \<Longrightarrow>
   findOptimalPostingTime_loop s now db (candidate s now a) a = candidate s now k"
proof (induction n arbitrary: a)
  case 0
  then have "a = k" by simp
  with 0 show ?case by (subst findOptimalPostingTime_loop.simps) simp
next
  case (Suc n)
  then have lt: "a < k" by simp
  with Suc.prems(4) have na: "\<not> isTimeSlotAvailable s (db a) (candidate s now a)" by simp
  have step: "findOptimalPostingTime_loop s now db (candidate s now a) a
      = findOptimalPostingTime_loop s now db (candidate s now (Suc a)) (Suc a)"
    using lt na Suc.prems(3) by (subst findOptimalPostingTime_loop.simps) simp
  have "findOptimalPostingTime_loop s now db (candidate s now (Suc a)) (Suc a)
      = candidate s now k"
    using Suc.prems lt by (intro Suc.IH) auto
  with step show ?case by simp
qed

lemma findOptimalPostingTime_cases:
  "(\<exists>k<50. findOptimalPostingTime s now db = candidate s now k)
   \<or> findOptimalPostingTime s now db = nextDayFirstHour s now"
proof (cases "\<exists>k<50. isTimeSlotAvailable s (db k) (candidate s now k)")
  case True
  define k where "k = (LEAST k. k < 50 \<and> isTimeSlotAvailable s (db k) (candidate s now k))"
  from True have k: "k < 50 \<and> isTimeSlotAvailable s (db k) (candidate s now k)"
    unfolding k_def by (rule LeastI_ex)
  have least: "\<forall>j. 0 \<le> j \<and> j < k \<longrightarrow> \<not> isTimeSlotAvailable s (db j) (candidate s now j)"
  proof (intro allI impI)
    fix j assume j: "0 \<le> j \<and> j < k"
    show "\<not> isTimeSlotAvailable s (db j) (candidate s now j)"
    proof
      assume "isTimeSlotAvailable s (db j) (candidate s now j)"
      with j k have "j < 50 \<and> isTimeSlotAvailable s (db j) (candidate s now j)" by simp
      then have "k \<le> j" unfolding k_def by (rule Least_le)
      with j show False by simp
    qed
  qed
  have "findOptimalPostingTime_loop s now db (candidate s now 0) 0 = candidate s now k"
    using k least by (intro loop_first_available [where n = k]) auto
  with k show ?thesis by (auto simp: findOptimalPostingTime_def)
next
  case False
  then have "findOptimalPostingTime_loop s now db (candidate s now 0) 0 = nextDayFirstHour s now"
    by (intro loop_exhausted [where n = 50]) auto
  then show ?thesis by (simp add: findOptimalPostingTime_def)
qed






subsection \<open>Conflicts\<close>



subsection \<open>Termination and the fallback\<close>

text \<open>
  Claim C4.  With a non-empty list of optimal hours \<open>findOptimalPostingTime\<close> returns an
  instant for every clock reading and every behaviour of the lookups; it has no way to
  throw, since a failed lookup only makes the slot unavailable, and it makes at most 50
  lookups.  When none of the 50 candidates is available, for instance when every lookup
  fails, it returns tomorrow (one day after \<open>now\<close>) at the first configured optimal hour.
\<close>

theorem findOptimalPostingTime_total:
  assumes "optimalHours s = h0 # rest"
  shows "(\<exists>t. findOptimalPostingTime s now db = Some t)
       \<and> ((\<forall>k<50. \<not> isTimeSlotAvailable s (db k) (candidate s now k))
            \<longrightarrow> findOptimalPostingTime s now db = Some (setHours0 (addDays now 1) h0))
       \<and> ((\<forall>k<50. db k = None)
            \<longrightarrow> findOptimalPostingTime s now db = Some (setHours0 (addDays now 1) h0))"
proof -
  have ne: "optimalHours s \<noteq> []" using assms by simp
  have fb: "nextDayFirstHour s now = Some (setHours0 (addDays now 1) h0)"
    using assms by (simp add: nextDayFirstHour_def)
  have some: "\<exists>t. findOptimalPostingTime s now db = Some t"
    using findOptimalPostingTime_cases [of s now db] candidate_Some [OF ne] fb by metis
  have ex: "findOptimalPostingTime s now db = Some (setHours0 (addDays now 1) h0)"
    if "\<forall>k<50. \<not> isTimeSlotAvailable s (db k) (candidate s now k)"
  proof -
    have "findOptimalPostingTime_loop s now db (candidate s now 0) 0 = nextDayFirstHour s now"
      using that by (intro loop_exhausted [where n = 50]) auto
    with fb show ?thesis by (simp add: findOptimalPostingTime_def)
  qed
  have fail: "findOptimalPostingTime s now db = Some (setHours0 (addDays now 1) h0)"
    if "\<forall>k<50. db k = None"
    using that by (intro ex) (simp add: isTimeSlotAvailable_def)
  from some ex fail show ?thesis by blast
qed

theorem findOptimalPostingTime_total_witness:
  "findOptimalPostingTime default_scheduler (at_utc 19732 10 0) lookup_always_fails
     = Some (at_utc 19733 9 0)"
proof -
  have a: "optimalHours default_scheduler = 9 # [12, 15, 18, 21]"
    by (simp add: default_scheduler_def)
  have b: "\<forall>k<50. lookup_always_fails k = None"
    by (simp add: lookup_always_fails_def)
  from findOptimalPostingTime_total [OF a, of "at_utc 19732 10 0" lookup_always_fails] b
  have "findOptimalPostingTime default_scheduler (at_utc 19732 10 0) lookup_always_fails
      = Some (setHours0 (addDays (at_utc 19732 10 0) 1) 9)"
    by blast
  then show ?thesis
    by (simp add: setHours0_def addDays_def at_utc_def MS_PER_DAY_def MS_PER_HOUR_def)
qed

subsection \<open>Schedule statistics: the average gap\<close>









subsection \<open>Schedule statistics: posts this week\<close>

text \<open>
  What the code counts: the instants not before \<open>now\<close> moved back by \<open>getDay()\<close> whole
  days.
\<close>

lemma postsThisWeek_counts:
  assumes "db 0 = Some pins"
  shows "postsThisWeek (getScheduleStats s now now2 db)
     = length (filter (\<lambda>t. now - getDay now * MS_PER_DAY \<le> t) (scheduled_instants pins))"
proof -
  have "length (filter (\<lambda>pin. case scheduled_for pin of None \<Rightarrow> False | Some t \<Rightarrow> c \<le> t) pins)
      = length (filter (\<lambda>t. c \<le> t) (List.map_filter scheduled_for pins))" for c :: int
    by (induction pins) (auto simp: List.map_filter_def split: option.splits)
  then show ?thesis
    using assms
    by (simp add: getScheduleStats_def Let_def thisWeekStart_def addDays_def scheduled_instants_def)
qed

text \<open>
  Claim C9 does not hold of the code: \<open>thisWeekStart\<close> keeps the time of day of \<open>now\<close>.
  On Wednesday 2024-01-10 (day 19732) at 15:00 the start of the week is computed as
  Sunday 2024-01-07 (day 19729) at 15:00, so a pin scheduled on that Sunday at 10:00,
  after the beginning of day 0, is not counted.
\<close>

theorem postsThisWeek_sunday_morning:
  "getDay (at_utc 19732 15 0) = 3
   \<and> getDay (at_utc 19729 10 0) = 0
   \<and> at_utc 19729 0 0 \<le> at_utc 19729 10 0
   \<and> thisWeekStart (at_utc 19732 15 0) = at_utc 19729 15 0
   \<and> postsThisWeek (getScheduleStats default_scheduler (at_utc 19732 15 0) (at_utc 19732 15 0)
        (lookup_returns [pin_at (at_utc 19729 10 0)])) = 0"
  by (simp add: getScheduleStats_def lookup_returns_def pin_at_def thisWeekStart_def getDay_def
        addDays_def at_utc_def MS_PER_DAY_def MS_PER_HOUR_def Let_def)

end
